theory Spec2Isabelle
  imports Complex_Main
begin

section \<open>Python values and errors\<close>

text \<open>
  Exceptions of the source are values: a computation that can raise returns
  \<open>py_error + 'a\<close>, with \<open>Inl\<close> the exception. Python floats are modelled as
  reals and Python's \<open>str\<close> as \<open>string\<close>, restricted to the 256 code points of
  \<open>char\<close>.
\<close>

datatype py_error = ValueError | ZeroDivisionError | OSError

definition py_truediv :: "real \<Rightarrow> real \<Rightarrow> py_error + real" where
  "py_truediv a b = (if b = 0 then Inl ZeroDivisionError else Inr (a / b))"

text \<open>\<open>sum(xs)\<close>: a left fold from 0.\<close>

definition py_sum :: "real list \<Rightarrow> real" where
  "py_sum xs = foldl (+) 0 xs"

subsection \<open>Character classes of \<open>re\<close>\<close>

definition newline :: char where
  "newline = CHR 0x0A"

text \<open>\<^verbatim>\<open>\s\<close> on a \<open>str\<close> pattern is Unicode white space; below code point 256 that is
  U+0009 to U+000D, U+001C to U+0020, U+0085 and U+00A0. \<open>str.split()\<close> and
  \<open>str.isspace\<close> use the same set.\<close>

definition is_space :: "char \<Rightarrow> bool" where
  "is_space c = (let n = (of_char c :: nat)
                 in (9 \<le> n \<and> n \<le> 13) \<or> (28 \<le> n \<and> n \<le> 32) \<or> n = 133 \<or> n = 160)"

text \<open>\<^verbatim>\<open>\d\<close>: a Unicode decimal digit; below code point 256 these are 0 to 9.\<close>

definition is_digit :: "char \<Rightarrow> bool" where
  "is_digit c = (let n = (of_char c :: nat) in 48 \<le> n \<and> n \<le> 57)"

datatype cls = Exactly char | Dot | Space | Digit

fun in_cls :: "cls \<Rightarrow> char \<Rightarrow> bool" where
  "in_cls (Exactly x) c = (c = x)"
| "in_cls Dot c = (c \<noteq> newline)"
| "in_cls Space c = is_space c"
| "in_cls Digit c = is_digit c"

subsection \<open>A backtracking matcher for the patterns the repository compiles\<close>

text \<open>
  The patterns of the repository are sequences of literals and of repetitions of one
  character class, with one capture group. \<open>Rep c lo hi greedy\<close> is the class \<open>c\<close>
  repeated at least \<open>lo\<close> and at most \<open>hi\<close> times (\<open>None\<close>: unbounded), greedy or lazy.
  The matcher tries the repetition counts in the order of \<open>re\<close>: longest first for a
  greedy repetition, shortest first for a lazy one, and takes the first count for
  which the rest of the pattern matches.
\<close>

datatype atom = Lit string | Rep cls nat "nat option" bool | GroupOpen | GroupClose

definition run_len :: "cls \<Rightarrow> string \<Rightarrow> nat" where
  "run_len c s = length (takeWhile (in_cls c) s)"

definition counts :: "nat \<Rightarrow> nat option \<Rightarrow> bool \<Rightarrow> nat \<Rightarrow> nat list" where
  "counts lo hi greedy avail =
     (let top = (case hi of None \<Rightarrow> avail | Some h \<Rightarrow> min h avail);
          asc = [lo ..< Suc top]
      in if greedy then rev asc else asc)"

text \<open>
  \<open>match_here p s (go, gc)\<close> matches the pattern \<open>p\<close> at the start of \<open>s\<close>; \<open>go\<close> and
  \<open>gc\<close> are the inputs that remained when the group was opened and closed. The result
  is the text of group 1 and the input left after the match.
\<close>

fun match_here :: "atom list \<Rightarrow> string \<Rightarrow> string \<times> string \<Rightarrow> (string \<times> string) option"
and try_counts :: "atom list \<Rightarrow> string \<Rightarrow> string \<times> string \<Rightarrow> nat list \<Rightarrow> (string \<times> string) option"
where
  "match_here [] s (go, gc) = Some (take (length go - length gc) go, s)"
| "match_here (Lit l # p) s g =
     (if take (length l) s = l then match_here p (drop (length l) s) g else None)"
| "match_here (GroupOpen # p) s (go, gc) = match_here p s (s, gc)"
| "match_here (GroupClose # p) s (go, gc) = match_here p s (go, s)"
| "match_here (Rep c lo hi greedy # p) s g =
     try_counts p s g (counts lo hi greedy (run_len c s))"
| "try_counts p s g [] = None"
| "try_counts p s g (n # ns) =
     (case match_here p (drop n s) g of
        Some r \<Rightarrow> Some r
      | None \<Rightarrow> try_counts p s g ns)"

text \<open>\<open>pattern.search(s)\<close>: the match at the leftmost start position that has one.\<close>

fun search :: "atom list \<Rightarrow> string \<Rightarrow> (string \<times> string) option" where
  "search p [] = match_here p [] ([], [])"
| "search p (c # s) =
     (case match_here p (c # s) ([], []) of
        Some r \<Rightarrow> Some r
      | None \<Rightarrow> search p s)"

text \<open>\<^verbatim>\<open>Intel energy model derived package power.*?:\s+(\d+\.?\d*)\s*W\<close>\<close>

definition power_pattern :: "atom list" where
  "power_pattern =
     [Lit ''Intel energy model derived package power'',
      Rep Dot 0 None False,
      Lit '':'',
      Rep Space 1 None True,
      GroupOpen,
      Rep Digit 1 None True,
      Rep (Exactly CHR ''.'') 0 (Some 1) True,
      Rep Digit 0 None True,
      GroupClose,
      Rep Space 0 None True,
      Lit ''W'']"

text \<open>
  \<open>pattern.findall(s)\<close> for a pattern with one group: the group texts of the
  non-overlapping matches, left to right; the scan resumes where a match ended. (After
  an empty match the model moves on by one character; no pattern of the repository
  matches the empty string.)
\<close>

fun findall :: "atom list \<Rightarrow> string \<Rightarrow> string list" where
  "findall p s =
     (case match_here p s ([], []) of
        Some (g, rest) \<Rightarrow>
          (if length rest < length s then g # findall p rest
           else (case s of [] \<Rightarrow> [g] | _ # s' \<Rightarrow> g # findall p s'))
      | None \<Rightarrow> (case s of [] \<Rightarrow> [] | _ # s' \<Rightarrow> findall p s'))"

subsection \<open>\<open>float(str)\<close>\<close>

definition digit_val :: "char \<Rightarrow> nat" where
  "digit_val c = of_char c - 48"

definition digits_val :: "string \<Rightarrow> nat" where
  "digits_val ds = foldl (\<lambda>a c. 10 * a + digit_val c) 0 ds"

text \<open>
  An unsigned decimal literal: digits, optionally a point and more digits, with a
  digit on at least one side of the point. Its value is the exact decimal value
  (Python rounds it to the nearest double, and to \<open>inf\<close> beyond the double range).
\<close>

definition unsigned_float :: "string \<Rightarrow> py_error + real" where
  "unsigned_float s =
     (let ip = takeWhile is_digit s; r = dropWhile is_digit s
      in case r of
           [] \<Rightarrow> if ip = [] then Inl ValueError else Inr (real (digits_val ip))
         | c # fp \<Rightarrow>
             if c = CHR ''.'' \<and> list_all is_digit fp \<and> (ip \<noteq> [] \<or> fp \<noteq> [])
             then Inr (real (digits_val ip) + real (digits_val fp) / 10 ^ length fp)
             else Inl ValueError)"

text \<open>
  \<open>float(s)\<close> on an optionally signed decimal literal; anything else raises
  \<open>ValueError\<close>. Exponents, underscores, \<open>inf\<close>, \<open>nan\<close> and surrounding white space,
  which Python also accepts, are outside this model.
\<close>

definition py_float :: "string \<Rightarrow> py_error + real" where
  "py_float s =
     (case s of
        [] \<Rightarrow> Inl ValueError
      | c # r \<Rightarrow>
          if c = CHR ''-'' then map_sum id uminus (unsigned_float r)
          else if c = CHR ''+'' then unsigned_float r
          else unsigned_float s)"

text \<open>The texts matched by \<^verbatim>\<open>\d+\.?\d*\<close>, the capture group of the power pattern.\<close>

definition unsigned_decimal :: "string \<Rightarrow> bool" where
  "unsigned_decimal g =
     (let ip = takeWhile is_digit g; r = dropWhile is_digit g
      in ip \<noteq> [] \<and> (case r of [] \<Rightarrow> True | c # fp \<Rightarrow> c = CHR ''.'' \<and> list_all is_digit fp))"

text \<open>\<open>[float(m) for m in matches]\<close>: the first failing conversion raises.\<close>

fun floats_of :: "string list \<Rightarrow> py_error + real list" where
  "floats_of [] = Inr []"
| "floats_of (m # ms) =
     (case py_float m of
        Inl e \<Rightarrow> Inl e
      | Inr v \<Rightarrow> (case floats_of ms of Inl e \<Rightarrow> Inl e | Inr vs \<Rightarrow> Inr (v # vs)))"

subsection \<open>\<open>max\<close>, \<open>int\<close>, \<open>round\<close>, \<open>str.split\<close>\<close>

text \<open>\<open>max(xs)\<close> of a list: \<open>ValueError\<close> on the empty list.\<close>

definition py_max :: "real list \<Rightarrow> py_error + real" where
  "py_max xs = (case xs of [] \<Rightarrow> Inl ValueError | x # r \<Rightarrow> Inr (foldl max x r))"

text \<open>\<open>int(x)\<close> truncates towards zero.\<close>

definition py_int :: "real \<Rightarrow> int" where
  "py_int x = (if 0 \<le> x then \<lfloor>x\<rfloor> else \<lceil>x\<rceil>)"

text \<open>
  \<open>round(x, n)\<close>: to the nearest multiple of \<open>10 ^ -n\<close>, a tie going to the even one.
  (Python rounds the exact binary value of the double; the model rounds the real.)
\<close>

definition round_half_even :: "real \<Rightarrow> int" where
  "round_half_even x =
     (let f = \<lfloor>x\<rfloor>; d = x - of_int f
      in if d < 1 / 2 then f else if 1 / 2 < d then f + 1 else if even f then f else f + 1)"

definition py_round :: "real \<Rightarrow> nat \<Rightarrow> real" where
  "py_round x n = of_int (round_half_even (x * 10 ^ n)) / 10 ^ n"

text \<open>\<open>s.split()\<close>: the maximal runs of characters that are not white space.\<close>

fun split_acc :: "string \<Rightarrow> string \<Rightarrow> string list" where
  "split_acc w [] = (if w = [] then [] else [w])"
| "split_acc w (c # s) =
     (if is_space c then (if w = [] then split_acc [] s else w # split_acc [] s)
      else split_acc (w @ [c]) s)"

definition py_split :: "string \<Rightarrow> string list" where
  "py_split s = split_acc [] s"

section \<open>\<open>IntelPowerMonitor\<close> (llm_joulemeter.py)\<close>

text \<open>
  A sample is the pair \<open>(time.time(), watts)\<close> put on the queue. The record holds the
  fields of the monitor and, to thread the loop's state, the two locals of \<open>run\<close>:
  the accumulation buffer and the subprocess.
\<close>

type_synonym sample = "real \<times> real"

datatype proc = NotSpawned | Spawned | Terminated

record monitor =
  baseline_watts :: real
  data_queue :: "sample list"
  buffer :: string
  process :: proc

definition monitor_init :: monitor where
  "monitor_init = \<lparr>baseline_watts = 0, data_queue = [], buffer = [], process = NotSpawned\<rparr>"

text \<open>
  What one iteration of the loop of \<open>run\<close> meets: the stop event is set; or
  \<open>read(1)\<close> returns a character (with it, the value \<open>time.time()\<close> has at that
  moment), returns the empty string at the end of the stream, or raises.
\<close>

datatype event = Got char real | Eof | ReadFails | StopSet

text \<open>\<open>buffer = buffer[-500:]\<close> when \<open>len(buffer) > 1000\<close>.\<close>

definition keep_tail :: "string \<Rightarrow> string" where
  "keep_tail buf = (if length buf > 1000 then drop (length buf - 500) buf else buf)"

text \<open>The body of the \<open>try\<close> once a character has been read.\<close>

definition on_char :: "char \<Rightarrow> real \<Rightarrow> monitor \<Rightarrow> py_error + monitor" where
  "on_char c now mon =
     (let buf = buffer mon @ [c]
      in if c = newline then
           (case search power_pattern buf of
              Some (g, rest) \<Rightarrow>
                (case py_float g of
                   Inl e \<Rightarrow> Inl e
                 | Inr watts \<Rightarrow>
                     Inr (mon\<lparr>buffer := keep_tail buf,
                              data_queue := data_queue mon @ [(now, watts)]\<rparr>))
            | None \<Rightarrow> Inr (mon\<lparr>buffer := keep_tail buf\<rparr>))
         else Inr (mon\<lparr>buffer := buf\<rparr>))"

text \<open>
  The \<open>while\<close> loop. \<open>Reading\<close>: the events are used up and the thread waits in
  \<open>read(1)\<close>, the loop not left. \<open>Exited\<close>: the loop is left, by the stop event, the
  end of the stream, or an exception caught by the \<open>except\<close> clause.
\<close>

datatype loop_result = Reading monitor | Exited monitor

fun loop_state :: "loop_result \<Rightarrow> monitor" where
  "loop_state (Reading mon) = mon"
| "loop_state (Exited mon) = mon"

fun run_loop :: "event list \<Rightarrow> monitor \<Rightarrow> loop_result" where
  "run_loop [] mon = Reading mon"
| "run_loop (StopSet # es) mon = Exited mon"
| "run_loop (Eof # es) mon = Exited mon"
| "run_loop (ReadFails # es) mon = Exited mon"
| "run_loop (Got c now # es) mon =
     (case on_char c now mon of
        Inl e \<Rightarrow> Exited (mon\<lparr>buffer := buffer mon @ [c]\<rparr>)
      | Inr mon' \<Rightarrow> run_loop es mon')"

text \<open>
  \<open>run\<close>: spawn the subprocess, loop, then \<open>process.terminate()\<close>. \<open>None\<close>: the thread
  function has not returned on these events.
\<close>

definition run :: "event list \<Rightarrow> monitor \<Rightarrow> monitor option" where
  "run es mon =
     (case run_loop es (mon\<lparr>process := Spawned, buffer := []\<rparr>) of
        Reading mon' \<Rightarrow> None
      | Exited mon' \<Rightarrow> Some (mon'\<lparr>process := Terminated\<rparr>))"

text \<open>A stream of characters, all read at clock value \<open>now\<close>.\<close>

definition chars_at :: "real \<Rightarrow> string \<Rightarrow> event list" where
  "chars_at now s = map (\<lambda>c. Got c now) s"

text \<open>
  \<open>calibrate_baseline\<close>, from the moment \<open>time.sleep\<close> returns: \<open>mon\<close> is the monitor
  with the samples the thread has put on the queue since \<open>self.start()\<close>. The \<open>while\<close>
  loop takes the queue's entries one by one and keeps the watts.
\<close>

fun drain_watts :: "sample list \<Rightarrow> real list \<Rightarrow> real list" where
  "drain_watts [] readings = readings"
| "drain_watts ((t, watts) # q) readings = drain_watts q (readings @ [watts])"

definition calibrate_baseline :: "monitor \<Rightarrow> py_error + monitor" where
  "calibrate_baseline mon =
     (let readings = drain_watts (data_queue mon) []
      in if readings \<noteq> [] then
           (case py_truediv (py_sum readings) (real (length readings)) of
              Inl e \<Rightarrow> Inl e
            | Inr b \<Rightarrow> Inr (mon\<lparr>baseline_watts := b, data_queue := []\<rparr>))
         else Inr (mon\<lparr>baseline_watts := 3.0, data_queue := []\<rparr>))"

section \<open>\<open>run_experiment\<close> (llm_joulemeter.py)\<close>

text \<open>
  The answer of the inference call: \<open>requests.post\<close> or \<open>response.json()\<close> raises, or
  the JSON holds the text and, when the key is present, \<open>eval_count\<close>.
\<close>

record response =
  output_text :: string
  eval_count :: "real option"

datatype request = RequestFails | Responds response

text \<open>The locals computed for one task, and the row appended to \<open>results\<close>.\<close>

record metrics =
  token_count :: real
  elapsed :: real
  avg_power_raw :: real
  avg_power_net :: real
  total_energy_joules :: real
  joules_per_token :: real
  sec_per_token :: real

record row =
  Task :: string
  Tokens :: int
  Time_s :: real
  Avg_Watts_Raw :: real
  Avg_Watts_Net :: real
  Total_Joules :: real
  Joules_Per_Token :: real
  Sec_Per_Token :: real

text \<open>
  What one pass of the \<open>for\<close> loop ends in: the \<open>except\<close> clause (message and
  \<open>continue\<close>), the "No power samples captured" message and \<open>continue\<close>, or the
  metrics.
\<close>

datatype task_result = TaskError "py_error option" | NoPowerSamples | Measured metrics

text \<open>The drain loop: every queued sample is taken, those inside the window are kept.\<close>

fun collect_power :: "real \<Rightarrow> real \<Rightarrow> sample list \<Rightarrow> real list \<Rightarrow> real list" where
  "collect_power start_time end_time [] power_samples = power_samples"
| "collect_power start_time end_time ((t, watts) # q) power_samples =
     collect_power start_time end_time q
       (if start_time \<le> t \<and> t \<le> end_time then power_samples @ [watts] else power_samples)"

definition per_token :: "real \<Rightarrow> real \<Rightarrow> py_error + real" where
  "per_token x tokens = (if tokens > 0 then py_truediv x tokens else Inr 0)"

definition calculate_metrics :: "real \<Rightarrow> real \<Rightarrow> real \<Rightarrow> real list \<Rightarrow> py_error + metrics" where
  "calculate_metrics baseline tc el power_samples =
     (case py_truediv (py_sum power_samples) (real (length power_samples)) of
        Inl e \<Rightarrow> Inl e
      | Inr raw \<Rightarrow>
          (let net = max 0.1 (raw - baseline);
               total = net * el
           in case per_token total tc of
                Inl e \<Rightarrow> Inl e
              | Inr jpt \<Rightarrow>
                  (case per_token el tc of
                     Inl e \<Rightarrow> Inl e
                   | Inr spt \<Rightarrow>
                       Inr \<lparr>token_count = tc, elapsed = el, avg_power_raw = raw,
                            avg_power_net = net, total_energy_joules = total,
                            joules_per_token = jpt, sec_per_token = spt\<rparr>)))"

text \<open>
  The body of the \<open>try\<close> for one task: \<open>mon\<close> is the monitor when the queue is
  drained, \<open>start_time\<close> and \<open>end_time\<close> the clock before and after the call. An
  exception of the call itself is \<open>TaskError None\<close>.
\<close>

definition run_task :: "monitor \<Rightarrow> real \<Rightarrow> real \<Rightarrow> request \<Rightarrow> task_result" where
  "run_task mon start_time end_time req =
     (case req of
        RequestFails \<Rightarrow> TaskError None
      | Responds r \<Rightarrow>
          (let el = end_time - start_time;
               tc0 = (case eval_count r of None \<Rightarrow> 0 | Some n \<Rightarrow> n);
               tc = (if tc0 = 0 then real (length (py_split (output_text r))) * 1.3 else tc0);
               power_samples = collect_power start_time end_time (data_queue mon) []
           in if power_samples = [] then NoPowerSamples
              else (case calculate_metrics (baseline_watts mon) tc el power_samples of
                      Inl e \<Rightarrow> TaskError (Some e)
                    | Inr m \<Rightarrow> Measured m)))"

definition make_row :: "string \<Rightarrow> metrics \<Rightarrow> row" where
  "make_row task m =
     \<lparr>Task = task, Tokens = py_int (token_count m), Time_s = py_round (elapsed m) 2,
      Avg_Watts_Raw = py_round (avg_power_raw m) 2,
      Avg_Watts_Net = py_round (avg_power_net m) 2,
      Total_Joules = py_round (total_energy_joules m) 2,
      Joules_Per_Token = py_round (joules_per_token m) 4,
      Sec_Per_Token = py_round (sec_per_token m) 4\<rparr>"

text \<open>
  The \<open>for\<close> loop over the tasks. For each task: its name, the samples that reach the
  queue between the clearing at the top of the pass and the drain, the two clock
  values and the answer of the call.
\<close>

record task_run =
  task_name :: string
  arrivals :: "sample list"
  started_at :: real
  ended_at :: real
  answer :: request

fun run_tasks :: "task_run list \<Rightarrow> monitor \<Rightarrow> row list \<Rightarrow> row list" where
  "run_tasks [] mon results = results"
| "run_tasks (t # ts) mon results =
     (case run_task (mon\<lparr>data_queue := arrivals t\<rparr>) (started_at t) (ended_at t) (answer t) of
        Measured m \<Rightarrow> run_tasks ts mon (results @ [make_row (task_name t) m])
      | NoPowerSamples \<Rightarrow> run_tasks ts mon results
      | TaskError e \<Rightarrow> run_tasks ts mon results)"

section \<open>llm_joulemeter_simple.py\<close>

text \<open>\<open>get_baseline_power\<close>, from the standard output of the finished subprocess.\<close>

definition get_baseline_power :: "string \<Rightarrow> py_error + real" where
  "get_baseline_power stdout =
     (let matches = findall power_pattern stdout
      in if matches \<noteq> [] then
           (case floats_of matches of
              Inl e \<Rightarrow> Inl e
            | Inr vs \<Rightarrow> py_truediv (py_sum vs) (real (length matches)))
         else Inr 4.0)"

text \<open>
  The dictionary \<open>run_with_power_monitoring\<close> returns, and the keys \<open>main\<close> adds to
  it. (\<open>sec_per_token\<close> and \<open>joules_per_token\<close> name locals of \<open>run_experiment\<close>
  above; the keys of this dictionary carry the suffix \<open>_key\<close>.)
\<close>

record result =
  name :: string
  prompt :: string
  output_preview :: string
  tokens :: int
  time_s :: real
  avg_power_w :: real
  max_power_w :: real
  sec_per_token_key :: real

record full_result = result +
  net_power_w :: real
  joules :: real
  joules_per_token_key :: real

text \<open>
  The parsing \<open>try\<close>: the average and the maximum of the readings of the power file.
  \<open>None\<close> is a file that cannot be read; that exception and any raised while parsing
  end in the \<open>except\<close> clause, which sets both to 0, as the \<open>else\<close> branch for no
  readings does.
\<close>

definition parse_power :: "string option \<Rightarrow> real \<times> real" where
  "parse_power power_file =
     (case power_file of
        None \<Rightarrow> (0, 0)
      | Some power_data \<Rightarrow>
          (case floats_of (findall power_pattern power_data) of
             Inl e \<Rightarrow> (0, 0)
           | Inr power_readings \<Rightarrow>
               if power_readings \<noteq> [] then
                 (case py_truediv (py_sum power_readings) (real (length power_readings)) of
                    Inl e \<Rightarrow> (0, 0)
                  | Inr avg_power \<Rightarrow>
                      (case py_max power_readings of
                         Inl e \<Rightarrow> (0, 0)
                       | Inr max_power \<Rightarrow> (avg_power, max_power)))
               else (0, 0)))"

text \<open>
  \<open>run_with_power_monitoring\<close>: the state of the background subprocess when the
  function returns, and what it returns (\<open>None\<close> after a failed call).
\<close>

definition run_with_power_monitoring ::
  "string \<Rightarrow> string \<Rightarrow> real \<Rightarrow> real \<Rightarrow> request \<Rightarrow> string option
     \<Rightarrow> proc \<times> (py_error + result option)" where
  "run_with_power_monitoring prompt_text task start_time end_time req power_file =
     (case req of
        RequestFails \<Rightarrow> (Terminated, Inr None)
      | Responds r \<Rightarrow>
          (let el = end_time - start_time;
               tc = (case eval_count r of
                       None \<Rightarrow> real (length (py_split (output_text r))) * 1.3
                     | Some n \<Rightarrow> n);
               (avg_power, max_power) = parse_power power_file
           in (Terminated,
               case (if tc > 0 then map_sum id (\<lambda>q. py_round q 4) (py_truediv el tc)
                     else Inr 0) of
                 Inl e \<Rightarrow> Inl e
               | Inr spt \<Rightarrow>
                   Inr (Some \<lparr>name = task, prompt = take 100 prompt_text @ ''...'',
                              output_preview = take 100 (output_text r) @ ''...'',
                              tokens = py_int tc, time_s = py_round el 2,
                              avg_power_w = py_round avg_power 2,
                              max_power_w = py_round max_power 2,
                              sec_per_token_key = spt\<rparr>))))"

text \<open>The three keys \<open>main\<close> adds to a result.\<close>

definition add_energy :: "real \<Rightarrow> result \<Rightarrow> py_error + full_result" where
  "add_energy baseline_power r =
     (let net = py_round (max 0.1 (avg_power_w r - baseline_power)) 2;
          j = py_round (net * time_s r) 2
      in case (if tokens r > 0 then map_sum id (\<lambda>q. py_round q 4) (py_truediv j (real_of_int (tokens r)))
               else Inr 0) of
           Inl e \<Rightarrow> Inl e
         | Inr jpt \<Rightarrow>
             Inr (result.extend r
                    \<lparr>net_power_w = net, joules = j, joules_per_token_key = jpt\<rparr>))"

section \<open>Properties\<close>

subsection \<open>What the matcher returns\<close>

lemma try_counts_Some:
  "try_counts p s g ns = Some r \<Longrightarrow> \<exists>n\<in>set ns. match_here p (drop n s) g = Some r"
  by (induction ns) (auto split: option.splits)

lemma counts_bounds:
  "n \<in> set (counts lo hi gr avail) \<Longrightarrow> lo \<le> n \<and> n \<le> avail \<and> (\<forall>h. hi = Some h \<longrightarrow> n \<le> h)"
  by (auto simp: counts_def Let_def split: option.splits if_splits)

lemma match_rep_elim:
  assumes "match_here (Rep c lo hi gr # p) s g = Some r"
  shows "\<exists>n. lo \<le> n \<and> n \<le> run_len c s \<and> (\<forall>h. hi = Some h \<longrightarrow> n \<le> h) \<and>
    match_here p (drop n s) g = Some r"
proof -
  from assms have "try_counts p s g (counts lo hi gr (run_len c s)) = Some r" by simp
  then obtain n where n: "n \<in> set (counts lo hi gr (run_len c s))"
    and m: "match_here p (drop n s) g = Some r"
    using try_counts_Some by blast
  from counts_bounds[OF n] m show ?thesis by blast
qed

lemma run_len_le: "run_len c s \<le> length s"
  by (simp add: run_len_def length_takeWhile_le)

lemma take_run_len: "n \<le> run_len c s \<Longrightarrow> x \<in> set (take n s) \<Longrightarrow> in_cls c x"
proof -
  assume n: "n \<le> run_len c s" and x: "x \<in> set (take n s)"
  have "take n s = take n (takeWhile (in_cls c) s)"
    using n unfolding run_len_def
    by (metis append_eq_conv_conj take_append takeWhile_dropWhile_id diff_is_0_eq' take_0 append_Nil2)
  with x have "x \<in> set (takeWhile (in_cls c) s)" by (metis in_set_takeD)
  then show ?thesis by (rule set_takeWhileD[THEN conjunct2])
qed

lemma not_digit_dot: "\<not> is_digit CHR ''.''"
  by (simp add: is_digit_def)

lemma unsigned_decimal_shape:
  assumes "d1 \<noteq> []" "\<forall>x\<in>set d1. is_digit x" "\<forall>x\<in>set d2. x = CHR ''.''" "length d2 \<le> 1"
    "\<forall>x\<in>set d3. is_digit x"
  shows "unsigned_decimal (d1 @ d2 @ d3)"
proof (cases d2)
  case Nil
  with assms have d1d: "\<forall>x\<in>set (d1 @ d3). is_digit x" by auto
  from Nil have e: "d1 @ d2 @ d3 = d1 @ d3" by simp
  from d1d have tw: "takeWhile is_digit (d1 @ d3) = d1 @ d3"
    and dw: "dropWhile is_digit (d1 @ d3) = []"
    by (simp_all add: takeWhile_eq_all_conv)
  show ?thesis unfolding unsigned_decimal_def e Let_def tw dw using assms(1) by simp
next
  case (Cons a as)
  with assms have d2: "d2 = [CHR ''.'']" by auto
  with assms have "takeWhile is_digit (d1 @ d2 @ d3) = d1" "dropWhile is_digit (d1 @ d2 @ d3) = CHR ''.'' # d3"
    by (auto simp: not_digit_dot takeWhile_append2 dropWhile_append2)
  with assms show ?thesis by (simp add: unsigned_decimal_def list_all_iff)
qed

lemma number_group:
  assumes "match_here [Rep Digit 1 None True, Rep (Exactly CHR ''.'') 0 (Some 1) True,
             Rep Digit 0 None True, GroupClose, Rep Space 0 None True, Lit ''W''] s (s, gc)
           = Some (g, rest)"
  shows "unsigned_decimal g"
proof -
  from assms obtain n1 where n1: "1 \<le> n1" "n1 \<le> run_len Digit s"
    and m1: "match_here [Rep (Exactly CHR ''.'') 0 (Some 1) True,
             Rep Digit 0 None True, GroupClose, Rep Space 0 None True, Lit ''W''] (drop n1 s) (s, gc)
           = Some (g, rest)"
    using match_rep_elim[OF assms] by auto
  from m1 obtain n2 where n2: "n2 \<le> run_len (Exactly CHR ''.'') (drop n1 s)" "n2 \<le> 1"
    and m2: "match_here [Rep Digit 0 None True, GroupClose, Rep Space 0 None True, Lit ''W'']
               (drop n2 (drop n1 s)) (s, gc) = Some (g, rest)"
    using match_rep_elim[OF m1] by auto
  from m2 obtain n3 where n3: "n3 \<le> run_len Digit (drop n2 (drop n1 s))"
    and m3: "match_here [GroupClose, Rep Space 0 None True, Lit ''W'']
               (drop n3 (drop n2 (drop n1 s))) (s, gc) = Some (g, rest)"
    using match_rep_elim[OF m2] by auto
  let ?s3 = "drop n3 (drop n2 (drop n1 s))"
  from m3 have m4: "match_here [Rep Space 0 None True, Lit ''W''] ?s3 (s, ?s3) = Some (g, rest)"
    by simp
  obtain n4 where
    "match_here [Lit ''W''] (drop n4 ?s3) (s, ?s3) = Some (g, rest)"
    using match_rep_elim[OF m4] by auto
  then have g: "g = take (length s - length ?s3) s"
    by (simp split: if_splits)
  have l1: "n1 \<le> length s" using n1 run_len_le[of Digit s] by simp
  have l2: "n2 \<le> length (drop n1 s)" using n2 run_len_le[of "Exactly CHR ''.''" "drop n1 s"] by simp
  have l3: "n3 \<le> length (drop n2 (drop n1 s))"
    using n3 run_len_le[of Digit "drop n2 (drop n1 s)"] by simp
  have "length s - length ?s3 = n1 + n2 + n3" using l1 l2 l3 by simp
  with g have "g = take (n1 + n2 + n3) s" by (simp add: ac_simps)
  also have "\<dots> = take (n1 + n2) s @ take n3 (drop (n1 + n2) s)"
    by (rule take_add)
  also have "take (n1 + n2) s = take n1 s @ take n2 (drop n1 s)"
    by (rule take_add)
  also have "drop (n1 + n2) s = drop n2 (drop n1 s)"
    by (simp add: add.commute)
  finally have gs: "g = take n1 s @ take n2 (drop n1 s) @ take n3 (drop n2 (drop n1 s))"
    by simp
  have "take n1 s \<noteq> []" using n1 l1 by auto
  moreover have "\<forall>x\<in>set (take n1 s). is_digit x"
    using take_run_len[OF n1(2)] by auto
  moreover have "\<forall>x\<in>set (take n2 (drop n1 s)). x = CHR ''.''"
    using take_run_len[OF n2(1)] by auto
  moreover have "length (take n2 (drop n1 s)) \<le> 1" using n2 by simp
  moreover have "\<forall>x\<in>set (take n3 (drop n2 (drop n1 s))). is_digit x"
    using take_run_len[OF n3] by auto
  ultimately show ?thesis unfolding gs by (rule unsigned_decimal_shape)
qed

lemma search_match:
  "search p s = Some r \<Longrightarrow> \<exists>s'. match_here p s' ([], []) = Some r"
  by (induction s) (auto split: option.splits)

lemma power_pattern_group:
  assumes "match_here power_pattern s g0 = Some (g, rest)"
  shows "unsigned_decimal g"
proof -
  obtain go gc where g0: "g0 = (go, gc)" by (cases g0)
  let ?num = "[Rep Digit 1 None True, Rep (Exactly CHR ''.'') 0 (Some 1) True,
             Rep Digit 0 None True, GroupClose, Rep Space 0 None True, Lit ''W'']"
  let ?s1 = "drop (length ''Intel energy model derived package power'') s"
  from assms have m1: "match_here (Rep Dot 0 None False # Lit '':'' # Rep Space 1 None True #
      GroupOpen # ?num) ?s1 g0 = Some (g, rest)"
    unfolding power_pattern_def by (simp split: if_splits)
  obtain n1 where m2: "match_here (Lit '':'' # Rep Space 1 None True # GroupOpen # ?num)
      (drop n1 ?s1) g0 = Some (g, rest)"
    using match_rep_elim[OF m1] by auto
  let ?s3 = "drop (length '':'') (drop n1 ?s1)"
  from m2 have m3: "match_here (Rep Space 1 None True # GroupOpen # ?num) ?s3 g0 = Some (g, rest)"
    by (simp split: if_splits)
  obtain n2 where m4: "match_here (GroupOpen # ?num) (drop n2 ?s3) g0 = Some (g, rest)"
    using match_rep_elim[OF m3] by auto
  from m4 have "match_here ?num (drop n2 ?s3) (drop n2 ?s3, gc) = Some (g, rest)"
    by (simp add: g0)
  then show ?thesis by (rule number_group)
qed

lemma not_digit_sign: "is_digit c \<Longrightarrow> c \<noteq> CHR ''-'' \<and> c \<noteq> CHR ''+'' \<and> c \<noteq> CHR ''.''"
  by (auto simp: is_digit_def)

lemma unsigned_decimal_float:
  assumes "unsigned_decimal g"
  shows "\<exists>v. py_float g = Inr v \<and> 0 \<le> v"
proof -
  from assms have ip: "takeWhile is_digit g \<noteq> []"
    by (simp add: unsigned_decimal_def Let_def)
  then obtain c r where g: "g = c # r" and c: "is_digit c"
    by (cases g) (auto split: if_splits)
  from c g have pf: "py_float g = unsigned_float g"
    using not_digit_sign[OF c] by (simp add: py_float_def)
  show ?thesis
  proof (cases "dropWhile is_digit g")
    case Nil
    show ?thesis unfolding pf unsigned_float_def Let_def Nil using ip by simp
  next
    case (Cons d fp)
    from assms have "d = CHR ''.''" "list_all is_digit fp"
      unfolding unsigned_decimal_def Let_def Cons by simp_all
    then show ?thesis unfolding pf unsigned_float_def Let_def Cons using ip by simp
  qed
qed

lemma search_power_float:
  "search power_pattern buf = Some (g, rest) \<Longrightarrow> \<exists>v. py_float g = Inr v \<and> 0 \<le> v"
  using search_match power_pattern_group unsigned_decimal_float by blast

lemma on_char_Inr: "\<exists>mon'. on_char c now mon = Inr mon'"
proof (cases "c = newline")
  case False
  then show ?thesis by (simp add: on_char_def Let_def)
next
  case True
  show ?thesis
  proof (cases "search power_pattern (buffer mon @ [c])")
    case None
    with True show ?thesis by (simp add: on_char_def Let_def)
  next
    case (Some r)
    obtain g rest where r: "r = (g, rest)" by (cases r)
    from Some r obtain v where "py_float g = Inr v"
      using search_power_float by blast
    with True Some r show ?thesis by (simp add: on_char_def Let_def)
  qed
qed

lemma on_char_queue:
  assumes "on_char c now mon = Inr mon'" "\<forall>s\<in>set (data_queue mon). 0 \<le> snd s"
  shows "\<forall>s\<in>set (data_queue mon'). 0 \<le> snd s"
proof (cases "c = newline")
  case False
  with assms show ?thesis by (auto simp: on_char_def Let_def)
next
  case True
  show ?thesis
  proof (cases "search power_pattern (buffer mon @ [c])")
    case None
    with True assms show ?thesis by (auto simp: on_char_def Let_def)
  next
    case (Some r)
    obtain g rest where r: "r = (g, rest)" by (cases r)
    from Some r obtain v where v: "py_float g = Inr v" "0 \<le> v"
      using search_power_float by blast
    with True Some r assms show ?thesis by (auto simp: on_char_def Let_def)
  qed
qed

lemma run_loop_queue:
  "\<forall>s\<in>set (data_queue mon). 0 \<le> snd s \<Longrightarrow>
   \<forall>s\<in>set (data_queue (loop_state (run_loop es mon))). 0 \<le> snd s"
proof (induction es mon rule: run_loop.induct)
  case (5 c now es mon)
  obtain mon' where m: "on_char c now mon = Inr mon'" using on_char_Inr by blast
  with 5 on_char_queue[OF m] show ?case by simp
qed simp_all

lemma run_loop_Reading:
  "run_loop es mon = Reading mon' \<Longrightarrow> \<forall>e\<in>set es. \<exists>c t. e = Got c t"
proof (induction es mon rule: run_loop.induct)
  case (5 c now es mon)
  obtain m where m: "on_char c now mon = Inr m" using on_char_Inr by blast
  with 5 show ?case by simp
qed simp_all

lemma run_loop_process:
  "process (loop_state (run_loop es mon)) = process mon"
proof (induction es mon rule: run_loop.induct)
  case (5 c now es mon)
  obtain m where m: "on_char c now mon = Inr m" using on_char_Inr by blast
  then have "process m = process mon"
    by (auto simp: on_char_def Let_def split: if_splits option.splits sum.splits)
  with 5 m show ?case by simp
qed simp_all

subsection \<open>Sums, drains and the values of matches\<close>

text \<open>The definitions unfolded to evaluate the reader on a concrete stream.\<close>

lemmas eval_defs = power_pattern_def counts_def run_len_def is_space_def is_digit_def newline_def
  run_def chars_at_def on_char_def keep_tail_def monitor_init_def py_float_def unsigned_float_def
  digits_val_def digit_val_def Let_def

declare findall.simps [simp del]

lemma findall_groups:
  "g \<in> set (findall p s) \<Longrightarrow> \<exists>s' rest. match_here p s' ([], []) = Some (g, rest)"
proof (induction p s rule: findall.induct)
  case (1 p s)
  show ?case
  proof (cases "match_here p s ([], [])")
    case None
    with 1 show ?thesis
      by (subst (asm) (3) findall.simps) (auto split: list.splits)
  next
    case (Some r)
    obtain g' rest where r: "r = (g', rest)" by (cases r)
    with 1 Some show ?thesis
      by (subst (asm) (4) findall.simps) (auto split: list.splits if_splits)
  qed
qed

lemma floats_of_unsigned:
  "\<forall>g\<in>set ms. unsigned_decimal g \<Longrightarrow>
   \<exists>vs. floats_of ms = Inr vs \<and> length vs = length ms \<and> (\<forall>v\<in>set vs. 0 \<le> v)"
proof (induction ms)
  case Nil
  then show ?case by simp
next
  case (Cons m ms)
  then obtain vs where vs: "floats_of ms = Inr vs" "length vs = length ms" "\<forall>v\<in>set vs. 0 \<le> v"
    by auto
  from Cons.prems obtain v where "py_float m = Inr v" "0 \<le> v"
    using unsigned_decimal_float by auto
  with vs show ?case by simp
qed

lemma foldl_plus: "foldl (+) a xs = a + sum_list (xs :: real list)"
  by (induction xs arbitrary: a) simp_all

lemma py_sum_sum_list: "py_sum xs = sum_list xs"
  by (simp add: py_sum_def foldl_plus)

lemma drain_watts_map: "drain_watts q readings = readings @ map snd q"
  by (induction q readings rule: drain_watts.induct) simp_all

lemma collect_power_filter:
  "collect_power s e q acc = acc @ map snd (filter (\<lambda>(t, w). s \<le> t \<and> t \<le> e) q)"
  by (induction s e q acc rule: collect_power.induct) simp_all

lemma mean_nonneg:
  assumes "xs \<noteq> []" "\<forall>x\<in>set xs. 0 \<le> x"
  shows "\<exists>b. py_truediv (py_sum xs) (real (length xs)) = Inr b \<and> 0 \<le> b"
proof -
  from assms(2) have "0 \<le> sum_list xs" by (simp add: sum_list_nonneg)
  with assms(1) show ?thesis by (simp add: py_truediv_def py_sum_sum_list)
qed

lemma get_baseline_power_nonneg: "\<exists>b. get_baseline_power out = Inr b \<and> 0 \<le> b"
proof (cases "findall power_pattern out = []")
  case True
  then show ?thesis by (simp add: get_baseline_power_def)
next
  case False
  have "\<forall>g\<in>set (findall power_pattern out). unsigned_decimal g"
    using findall_groups power_pattern_group by blast
  then obtain vs where vs: "floats_of (findall power_pattern out) = Inr vs"
    "length vs = length (findall power_pattern out)" "\<forall>v\<in>set vs. 0 \<le> v"
    using floats_of_unsigned by blast
  with False have "vs \<noteq> []" by auto
  from mean_nonneg[OF this vs(3)] vs False show ?thesis
    by (simp add: get_baseline_power_def)
qed

subsection \<open>The subprocess is terminated when the reader returns\<close>

text \<open>
  C5. Whenever the thread function \<open>run\<close> returns, it has called
  \<open>process.terminate()\<close>: the loop is left only by the stop event, the end of the
  stream or a caught exception, and each of them leads to the call after the loop. On
  a sequence of events with none of these the function has not returned. In
  \<open>run_with_power_monitoring\<close> the process group is signalled on both paths, the failed
  call and the answered one.
\<close>

theorem run_terminates_process:
  "(case run es mon of
      None \<Rightarrow> \<forall>e\<in>set es. \<exists>c t. e = Got c t
    | Some mon' \<Rightarrow> process mon' = Terminated)
   \<and> fst (run_with_power_monitoring prompt_text task start_time end_time req power_file)
       = Terminated"
proof
  show "case run es mon of
      None \<Rightarrow> \<forall>e\<in>set es. \<exists>c t. e = Got c t
    | Some mon' \<Rightarrow> process mon' = Terminated"
  proof (cases "run_loop es (mon\<lparr>process := Spawned, buffer := []\<rparr>)")
    case (Reading m)
    with run_loop_Reading[OF Reading] show ?thesis by (simp add: run_def)
  next
    case (Exited m)
    then show ?thesis by (simp add: run_def)
  qed
  show "fst (run_with_power_monitoring prompt_text task start_time end_time req power_file)
       = Terminated"
    by (simp add: run_with_power_monitoring_def Let_def split: request.splits prod.splits)
qed

theorem run_terminates_process_witness:
  "(case run [Got CHR ''x'' 0, ReadFails] monitor_init of
      None \<Rightarrow> False
    | Some mon' \<Rightarrow> process mon' = Terminated)
   \<and> fst (run_with_power_monitoring ''Hello'' ''warmup'' 1 2 RequestFails None) = Terminated"
proof -
  have "\<not> (\<forall>e\<in>set [Got CHR ''x'' 0, ReadFails]. \<exists>c t. e = Got c t)"
    by simp
  then show ?thesis
    using run_terminates_process
      [of "[Got CHR ''x'' 0, ReadFails]" monitor_init "''Hello''" "''warmup''" 1 2 RequestFails None]
    by (auto split: option.splits)
qed

subsection \<open>Sample values are non-negative\<close>

text \<open>
  C9. The group captured by a match of the power pattern is an unsigned decimal literal
  (digits, optionally a point and more digits), so \<open>float\<close> of it never raises and is
  at least 0. Hence every value the reader puts on the queue is at least 0, on every
  sequence of events, and \<open>get_baseline_power\<close> always returns a value that is at
  least 0.
\<close>

theorem captured_values_nonneg:
  "(search power_pattern buf = Some (g, rest) \<longrightarrow>
      unsigned_decimal g \<and> (\<exists>v. py_float g = Inr v \<and> 0 \<le> v))
   \<and> (\<forall>s\<in>set (data_queue (loop_state (run_loop es monitor_init))). 0 \<le> snd s)
   \<and> (\<exists>b. get_baseline_power out = Inr b \<and> 0 \<le> b)"
proof (intro conjI impI)
  assume "search power_pattern buf = Some (g, rest)"
  then show "unsigned_decimal g" using search_match power_pattern_group by blast
  then show "\<exists>v. py_float g = Inr v \<and> 0 \<le> v" by (rule unsigned_decimal_float)
next
  show "\<forall>s\<in>set (data_queue (loop_state (run_loop es monitor_init))). 0 \<le> snd s"
    by (rule run_loop_queue) (simp add: monitor_init_def)
next
  show "\<exists>b. get_baseline_power out = Inr b \<and> 0 \<le> b" by (rule get_baseline_power_nonneg)
qed

theorem captured_values_nonneg_witness:
  "search power_pattern ''Intel energy model derived package power (CPUs+GT+SA): 12.50W''
     = Some (''12.50'', [])
   \<and> unsigned_decimal ''12.50'' \<and> py_float ''12.50'' = Inr 12.5
   \<and> data_queue (loop_state (run_loop
         (chars_at 7 (''Intel energy model derived package power (CPUs+GT+SA): 12.50W'' @ [newline]))
         monitor_init)) = [(7, 12.5)]
   \<and> 0 \<le> snd (hd (data_queue (loop_state (run_loop
         (chars_at 7 (''Intel energy model derived package power (CPUs+GT+SA): 12.50W'' @ [newline]))
         monitor_init))))"
proof -
  have s: "search power_pattern ''Intel energy model derived package power (CPUs+GT+SA): 12.50W''
     = Some (''12.50'', [])"
    by (simp add: eval_defs)
  have f: "py_float ''12.50'' = Inr 12.5"
    by (simp add: eval_defs)
  have q: "data_queue (loop_state (run_loop
         (chars_at 7 (''Intel energy model derived package power (CPUs+GT+SA): 12.50W'' @ [newline]))
         monitor_init)) = [(7, 12.5)]"
    by (simp add: eval_defs)
  have u: "unsigned_decimal ''12.50''"
    using s captured_values_nonneg
      [of "''Intel energy model derived package power (CPUs+GT+SA): 12.50W''" "''12.50''" "[]"
          "chars_at 7 (''Intel energy model derived package power (CPUs+GT+SA): 12.50W'' @ [newline])"]
    by blast
  show ?thesis
    unfolding q using s f u by simp
qed

subsection \<open>One sample per reading\<close>

text \<open>
  C1. The claim: a stream with N lines that match the power pattern puts exactly N
  samples on the queue, each with the value of its line. The reader searches the whole
  buffer at every newline and does not drop what it has matched, so the leftmost match
  is found again at each later newline. On two power lines reading 5.00 and 6.00 the
  queue receives 5.00 twice and never 6.00; on one power line followed by an empty line
  it receives two samples for one reading. \<open>findall\<close>, as the simple variant applies
  it to the same text, yields the two readings once each.
\<close>

theorem run_repeats_first_reading:
  "map_option (\<lambda>m. map snd (data_queue m))
     (run (chars_at 0
             (''Intel energy model derived package power (CPUs+GT+SA): 5.00W'' @ [newline] @
              ''Intel energy model derived package power (CPUs+GT+SA): 6.00W'' @ [newline])
           @ [Eof]) monitor_init)
   = Some [5, 5]
   \<and> map_option (\<lambda>m. map snd (data_queue m))
     (run (chars_at 0
             (''Intel energy model derived package power (CPUs+GT+SA): 5.00W'' @ [newline] @
              [newline])
           @ [Eof]) monitor_init)
   = Some [5, 5]
   \<and> findall power_pattern
        (''Intel energy model derived package power (CPUs+GT+SA): 5.00W'' @ [newline] @
         ''Intel energy model derived package power (CPUs+GT+SA): 6.00W'' @ [newline])
      = [''5.00'', ''6.00'']"
  by (simp add: eval_defs findall.simps)

subsection \<open>The length of the buffer\<close>

lemma keep_tail_le: "length (keep_tail buf) \<le> 1000"
  by (simp add: keep_tail_def)

lemma on_char_buffer:
  assumes "on_char c now mon = Inr mon'"
  shows "if c = newline then length (buffer mon') \<le> 1000 else buffer mon' = buffer mon @ [c]"
  using assms keep_tail_le[of "buffer mon @ [c]"]
  by (auto simp: on_char_def Let_def split: option.splits sum.splits if_splits)

lemma run_loop_append:
  "run_loop es mon = Reading m \<Longrightarrow> run_loop (es @ es') mon = run_loop es' m"
proof (induction es mon rule: run_loop.induct)
  case (5 c now es mon)
  then show ?case by (cases "on_char c now mon") simp_all
qed simp_all

lemma run_loop_buffer_bound:
  "\<exists>m. run_loop (map (\<lambda>(c, now). Got c now) cts) (mon\<lparr>buffer := []\<rparr>) = Reading m
     \<and> length (buffer m) \<le> 1000 + length (takeWhile (\<lambda>c. c \<noteq> newline) (rev (map fst cts)))"
proof (induction cts rule: rev_induct)
  case Nil
  then show ?case by simp
next
  case (snoc ct cts)
  obtain c now where ct: "ct = (c, now)" by (cases ct)
  from snoc obtain m where m: "run_loop (map (\<lambda>(c, now). Got c now) cts) (mon\<lparr>buffer := []\<rparr>) = Reading m"
    and len: "length (buffer m) \<le> 1000 + length (takeWhile (\<lambda>c. c \<noteq> newline) (rev (map fst cts)))"
    by blast
  obtain m' where m': "on_char c now m = Inr m'" using on_char_Inr by blast
  have "run_loop (map (\<lambda>(c, now). Got c now) (cts @ [ct])) (mon\<lparr>buffer := []\<rparr>) = Reading m'"
    using run_loop_append[OF m, of "[Got c now]"] m' by (simp add: ct)
  moreover have "length (buffer m')
      \<le> 1000 + length (takeWhile (\<lambda>c. c \<noteq> newline) (rev (map fst (cts @ [ct]))))"
    using on_char_buffer[OF m'] len by (auto simp: ct split: if_splits)
  ultimately show ?case by blast
qed

lemma on_char_newline_buffer:
  assumes "on_char newline now mon = Inr mon'"
  shows "buffer mon' = keep_tail (buffer mon @ [newline])"
  using assms by (auto simp: on_char_def Let_def split: option.splits sum.splits)

lemma run_loop_no_newline:
  "newline \<notin> set cs \<Longrightarrow>
   run_loop (chars_at now cs) mon = Reading (mon\<lparr>buffer := buffer mon @ cs\<rparr>)"
  by (induction cs arbitrary: mon) (auto simp: chars_at_def on_char_def Let_def)

text \<open>
  C7, as claimed: the buffer never exceeds 1000 characters. The cut is made inside the
  branch for a newline only, so a stream of 1001 characters without a newline leaves
  1001 characters in the buffer.
\<close>

theorem buffer_cap_counterexample:
  "\<not> length (buffer (loop_state (run_loop (chars_at 0 (replicate 1001 CHR ''a'')) monitor_init)))
       \<le> 1000"
proof -
  have "newline \<notin> set (replicate 1001 CHR ''a'')" by (simp add: newline_def)
  from run_loop_no_newline[OF this, of 0 monitor_init] show ?thesis
    by (simp add: monitor_init_def)
qed

text \<open>
  C7, amended. The buffer is cut to its last 500 characters only when a newline has just
  been read and the buffer, the newline included, is longer than 1000 characters; a
  newline that leaves it at 1000 characters or fewer is appended and the buffer kept
  whole, and a character other than a newline is appended and nothing is cut. So after
  a newline the buffer holds at most 1000 characters, and after any stream read from an
  empty buffer at most 1000 plus the number of characters read since the last newline.
\<close>

theorem buffer_bound_since_newline:
  "(\<exists>m. run_loop (map (\<lambda>(c, now). Got c now) cts) (mon\<lparr>buffer := []\<rparr>) = Reading m
      \<and> length (buffer m) \<le> 1000 + length (takeWhile (\<lambda>c. c \<noteq> newline) (rev (map fst cts))))
   \<and> (on_char newline now mon = Inr mon' \<longrightarrow>
        length (buffer mon') \<le> 1000
        \<and> (1000 \<le> length (buffer mon) \<longrightarrow>
             buffer mon' = drop (length (buffer mon) - 499) (buffer mon @ [newline])
             \<and> length (buffer mon') = 500)
        \<and> (length (buffer mon) < 1000 \<longrightarrow> buffer mon' = buffer mon @ [newline]))
   \<and> (c \<noteq> newline \<longrightarrow> on_char c now mon = Inr (mon\<lparr>buffer := buffer mon @ [c]\<rparr>))"
proof (intro conjI impI)
  show "\<exists>m. run_loop (map (\<lambda>(c, now). Got c now) cts) (mon\<lparr>buffer := []\<rparr>) = Reading m
      \<and> length (buffer m) \<le> 1000 + length (takeWhile (\<lambda>c. c \<noteq> newline) (rev (map fst cts)))"
    by (rule run_loop_buffer_bound)
next
  assume a: "on_char newline now mon = Inr mon'"
  from on_char_buffer[OF a] show "length (buffer mon') \<le> 1000" by simp
next
  assume a: "on_char newline now mon = Inr mon'"
  assume l: "1000 \<le> length (buffer mon)"
  from l have "keep_tail (buffer mon @ [newline])
      = drop (length (buffer mon) - 499) (buffer mon @ [newline])"
    by (simp add: keep_tail_def Suc_diff_le)
  with on_char_newline_buffer[OF a]
  show b: "buffer mon' = drop (length (buffer mon) - 499) (buffer mon @ [newline])" by simp
  from l show "length (buffer mon') = 500" unfolding b by simp
next
  assume a: "on_char newline now mon = Inr mon'"
  assume "length (buffer mon) < 1000"
  then have "keep_tail (buffer mon @ [newline]) = buffer mon @ [newline]"
    by (simp add: keep_tail_def)
  with on_char_newline_buffer[OF a] show "buffer mon' = buffer mon @ [newline]" by simp
next
  assume "c \<noteq> newline"
  then show "on_char c now mon = Inr (mon\<lparr>buffer := buffer mon @ [c]\<rparr>)"
    by (simp add: on_char_def Let_def)
qed

theorem buffer_bound_since_newline_witness:
  "(\<exists>m. run_loop [Got CHR ''a'' 1, Got newline 2] (monitor_init\<lparr>buffer := []\<rparr>) = Reading m
      \<and> length (buffer m) \<le> 1000)
   \<and> (\<exists>m. on_char newline 2 (monitor_init\<lparr>buffer := replicate 1000 CHR ''a''\<rparr>) = Inr m
         \<and> length (buffer m) = 500)
   \<and> (\<exists>m. on_char newline 2 (monitor_init\<lparr>buffer := ''a''\<rparr>) = Inr m
         \<and> buffer m = ''a'' @ [newline])
   \<and> CHR ''a'' \<noteq> newline
   \<and> on_char CHR ''a'' 1 monitor_init = Inr (monitor_init\<lparr>buffer := ''a''\<rparr>)"
proof -
  obtain m where m: "on_char newline 2 (monitor_init\<lparr>buffer := replicate 1000 CHR ''a''\<rparr>) = Inr m"
    using on_char_Inr by blast
  obtain k where k: "on_char newline 2 (monitor_init\<lparr>buffer := ''a''\<rparr>) = Inr k"
    using on_char_Inr by blast
  have n: "CHR ''a'' \<noteq> newline" by (simp add: newline_def)
  have b: "buffer monitor_init = []" by (simp add: monitor_init_def)
  show ?thesis
    using m k n b
      buffer_bound_since_newline [where cts = "[(CHR ''a'', 1), (newline, 2)]"
         and mon = "monitor_init\<lparr>buffer := replicate 1000 CHR ''a''\<rparr>" and now = 2
         and mon' = m and c = "CHR ''a''"]
      buffer_bound_since_newline [where cts = "[]"
         and mon = "monitor_init\<lparr>buffer := ''a''\<rparr>" and now = 2
         and mon' = k and c = "CHR ''a''"]
      buffer_bound_since_newline [where cts = "[]" and mon = monitor_init and now = 1
         and mon' = m and c = "CHR ''a''"]
    by simp
qed

subsection \<open>Calibration\<close>

text \<open>
  C6. When the queue holds no sample at the drain, \<open>calibrate_baseline\<close> returns
  normally with the baseline set to the default 3.0 W and the queue empty.
\<close>

theorem calibrate_default_baseline:
  "data_queue mon = [] \<Longrightarrow>
   calibrate_baseline mon = Inr (mon\<lparr>baseline_watts := 3, data_queue := []\<rparr>)"
  by (simp add: calibrate_baseline_def)

theorem calibrate_default_baseline_witness:
  "data_queue monitor_init = []
   \<and> calibrate_baseline monitor_init
       = Inr \<lparr>baseline_watts = 3, data_queue = [], buffer = [], process = NotSpawned\<rparr>"
proof -
  have h: "data_queue monitor_init = []" by (simp add: monitor_init_def)
  from calibrate_default_baseline[OF h] h show ?thesis by (simp add: monitor_init_def)
qed

text \<open>
  C8. When the queue holds samples at the drain, the baseline is the arithmetic mean of
  their values; the readings 3.0, 3.2 and 2.8 W give the baseline 3.0 W.
\<close>

theorem calibrate_mean:
  "(data_queue mon \<noteq> [] \<longrightarrow>
      calibrate_baseline mon
        = Inr (mon\<lparr>baseline_watts :=
                      sum_list (map snd (data_queue mon)) / real (length (data_queue mon)),
                    data_queue := []\<rparr>))
   \<and> calibrate_baseline (mon\<lparr>data_queue := [(t1, 3.0), (t2, 3.2), (t3, 2.8)]\<rparr>)
       = Inr (mon\<lparr>baseline_watts := 3.0, data_queue := []\<rparr>)"
  by (simp add: calibrate_baseline_def drain_watts_map py_sum_sum_list py_truediv_def)

theorem calibrate_mean_witness:
  "data_queue (monitor_init\<lparr>data_queue := [(10, 4), (11, 6)]\<rparr>) \<noteq> []
   \<and> calibrate_baseline (monitor_init\<lparr>data_queue := [(10, 4), (11, 6)]\<rparr>)
       = Inr \<lparr>baseline_watts = 5, data_queue = [], buffer = [], process = NotSpawned\<rparr>"
  using calibrate_mean [of "monitor_init\<lparr>data_queue := [(10, 4), (11, 6)]\<rparr>"]
  by (simp add: monitor_init_def)

subsection \<open>The window of a task\<close>

lemma per_token_eq: "per_token x tc = Inr (if tc > 0 then x / tc else 0)"
  by (simp add: per_token_def py_truediv_def)

lemma calculate_metrics_eq:
  "ps \<noteq> [] \<Longrightarrow>
   calculate_metrics b tc el ps =
     Inr \<lparr>token_count = tc, elapsed = el,
          avg_power_raw = sum_list ps / real (length ps),
          avg_power_net = max 0.1 (sum_list ps / real (length ps) - b),
          total_energy_joules = max 0.1 (sum_list ps / real (length ps) - b) * el,
          joules_per_token =
            (if tc > 0 then max 0.1 (sum_list ps / real (length ps) - b) * el / tc else 0),
          sec_per_token = (if tc > 0 then el / tc else 0)\<rparr>"
  by (simp add: calculate_metrics_def py_truediv_def py_sum_sum_list per_token_eq Let_def)

lemma run_task_eq:
  "run_task mon s e (Responds r) =
     (let kept = map snd (filter (\<lambda>(t, w). s \<le> t \<and> t \<le> e) (data_queue mon))
      in if kept = [] then NoPowerSamples
         else case calculate_metrics (baseline_watts mon)
                (let tc0 = (case eval_count r of None \<Rightarrow> 0 | Some n \<Rightarrow> n)
                 in if tc0 = 0 then real (length (py_split (output_text r))) * 1.3 else tc0)
                (e - s) kept of
                Inl x \<Rightarrow> TaskError (Some x) | Inr m \<Rightarrow> Measured m)"
  by (simp add: run_task_def collect_power_filter Let_def)

text \<open>
  C3. \<open>run_task\<close> keeps the drained samples whose time \<open>t\<close> satisfies
  \<open>start_time \<le> t \<le> end_time\<close> and computes the metrics from exactly those: the raw
  average is their mean, the net power the raw average less the baseline and at least
  0.1, the energy the net power times the elapsed time; with no sample kept the task
  ends in \<open>NoPowerSamples\<close>. For the window from \<open>t0\<close> to \<open>t0 + 2\<close>, the samples
  \<open>(t0 + 0.1, 5)\<close>, \<open>(t0 + 1, 6)\<close>, \<open>(t0 + 3, 9)\<close> and the baseline 3.0 the raw
  average is 5.5, the net power 2.5 and the energy 5.0 J.
\<close>

theorem correlate_window:
  "(let kept = map snd (filter (\<lambda>(t, w). s \<le> t \<and> t \<le> e) (data_queue mon))
    in case run_task mon s e (Responds r) of
         Measured m \<Rightarrow>
           kept \<noteq> [] \<and> avg_power_raw m = sum_list kept / real (length kept)
           \<and> avg_power_net m = max 0.1 (avg_power_raw m - baseline_watts mon)
           \<and> total_energy_joules m = avg_power_net m * (e - s)
       | NoPowerSamples \<Rightarrow> kept = []
       | TaskError x \<Rightarrow> False)
   \<and> (\<exists>m. run_task (mon\<lparr>baseline_watts := 3.0,
                          data_queue := [(t0 + 0.1, 5.0), (t0 + 1.0, 6.0), (t0 + 3.0, 9.0)]\<rparr>)
              t0 (t0 + 2.0) (Responds r) = Measured m
          \<and> avg_power_raw m = 5.5 \<and> avg_power_net m = 2.5 \<and> total_energy_joules m = 5.0)"
proof
  show "let kept = map snd (filter (\<lambda>(t, w). s \<le> t \<and> t \<le> e) (data_queue mon))
    in case run_task mon s e (Responds r) of
         Measured m \<Rightarrow>
           kept \<noteq> [] \<and> avg_power_raw m = sum_list kept / real (length kept)
           \<and> avg_power_net m = max 0.1 (avg_power_raw m - baseline_watts mon)
           \<and> total_energy_joules m = avg_power_net m * (e - s)
       | NoPowerSamples \<Rightarrow> kept = []
       | TaskError x \<Rightarrow> False"
  proof (cases "map snd (filter (\<lambda>(t, w). s \<le> t \<and> t \<le> e) (data_queue mon)) = []")
    case True
    then show ?thesis by (simp add: run_task_eq Let_def)
  next
    case False
    then show ?thesis
      unfolding run_task_eq Let_def by (simp add: calculate_metrics_eq)
  qed
  have "map snd (filter (\<lambda>(t, w). t0 \<le> t \<and> t \<le> t0 + 2.0)
          [(t0 + 0.1, 5.0), (t0 + 1.0, 6.0), (t0 + 3.0, 9.0 :: real)]) = [5, 6]"
    by simp
  then show "\<exists>m. run_task (mon\<lparr>baseline_watts := 3.0,
                          data_queue := [(t0 + 0.1, 5.0), (t0 + 1.0, 6.0), (t0 + 3.0, 9.0)]\<rparr>)
              t0 (t0 + 2.0) (Responds r) = Measured m
          \<and> avg_power_raw m = 5.5 \<and> avg_power_net m = 2.5 \<and> total_energy_joules m = 5.0"
    unfolding run_task_eq Let_def by (simp add: calculate_metrics_eq)
qed

theorem correlate_window_witness:
  "run_task \<lparr>baseline_watts = 3, data_queue = [(100.1, 5), (101, 6), (103, 9)],
             buffer = [], process = Spawned\<rparr>
     100 102 (Responds \<lparr>output_text = ''Hi there'', eval_count = Some 4\<rparr>)
   = Measured \<lparr>token_count = 4, elapsed = 2, avg_power_raw = 5.5, avg_power_net = 2.5,
               total_energy_joules = 5, joules_per_token = 1.25, sec_per_token = 0.5\<rparr>
   \<and> (let kept = map snd (filter (\<lambda>(t, w). (100 :: real) \<le> t \<and> t \<le> 102) [(100.1, 5 :: real), (101, 6), (103, 9)])
      in kept = [5, 6])"
  using correlate_window
    [of 100 102 "\<lparr>baseline_watts = 3, data_queue = [(100.1, 5), (101, 6), (103, 9)],
             buffer = [], process = Spawned\<rparr>" "\<lparr>output_text = ''Hi there'', eval_count = Some 4\<rparr>" 0]
  by (simp add: run_task_eq calculate_metrics_eq Let_def)

subsection \<open>Metrics of a task and of a result\<close>

lemma round_half_even_ge_floor: "\<lfloor>x\<rfloor> \<le> round_half_even x"
  by (simp add: round_half_even_def Let_def)

lemma py_round_floor:
  assumes "1 / 10 \<le> x"
  shows "1 / 10 \<le> py_round x 2"
proof -
  from assms have "10 \<le> x * 10 ^ 2" by simp
  then have "10 \<le> \<lfloor>x * 10 ^ 2\<rfloor>" by linarith
  with round_half_even_ge_floor[of "x * 10 ^ 2"] have "10 \<le> round_half_even (x * 10 ^ 2)"
    by linarith
  then have "(10 :: real) \<le> of_int (round_half_even (x * 10 ^ 2))" by linarith
  then show ?thesis by (simp add: py_round_def)
qed

lemma run_task_Measured:
  assumes "run_task mon s e req = Measured m"
  shows "avg_power_net m = max 0.1 (avg_power_raw m - baseline_watts mon)
    \<and> total_energy_joules m = avg_power_net m * elapsed m
    \<and> joules_per_token m
        = (if token_count m > 0 then total_energy_joules m / token_count m else 0)
    \<and> sec_per_token m = (if token_count m > 0 then elapsed m / token_count m else 0)"
proof (cases req)
  case RequestFails
  with assms show ?thesis by (simp add: run_task_def)
next
  case (Responds r)
  let ?kept = "map snd (filter (\<lambda>(t, w). s \<le> t \<and> t \<le> e) (data_queue mon))"
  from assms Responds have ne: "?kept \<noteq> []"
    by (auto simp: run_task_eq Let_def split: if_splits)
  from assms Responds have "run_task mon s e (Responds r) = Measured m" by simp
  with ne obtain tc where "calculate_metrics (baseline_watts mon) tc (e - s) ?kept = Inr m"
    by (auto simp: run_task_eq Let_def split: sum.splits)
  with ne have "m = \<lparr>token_count = tc, elapsed = e - s,
          avg_power_raw = sum_list ?kept / real (length ?kept),
          avg_power_net = max 0.1 (sum_list ?kept / real (length ?kept) - baseline_watts mon),
          total_energy_joules
            = max 0.1 (sum_list ?kept / real (length ?kept) - baseline_watts mon) * (e - s),
          joules_per_token =
            (if tc > 0
             then max 0.1 (sum_list ?kept / real (length ?kept) - baseline_watts mon) * (e - s) / tc
             else 0),
          sec_per_token = (if tc > 0 then (e - s) / tc else 0)\<rparr>"
    by (simp add: calculate_metrics_eq)
  then show ?thesis by simp
qed

lemma add_energy_eq:
  "add_energy b r =
     Inr (result.extend r
           \<lparr>net_power_w = py_round (max 0.1 (avg_power_w r - b)) 2,
            joules = py_round (py_round (max 0.1 (avg_power_w r - b)) 2 * time_s r) 2,
            joules_per_token_key =
              (if tokens r > 0
               then py_round (py_round (py_round (max 0.1 (avg_power_w r - b)) 2 * time_s r) 2
                              / real_of_int (tokens r)) 4
               else 0)\<rparr>)"
  by (simp add: add_energy_def Let_def py_truediv_def)

lemma py_round_zero: "py_round 0 n = 0"
  by (simp add: py_round_def round_half_even_def)

lemma run_with_power_monitoring_eq:
  "snd (run_with_power_monitoring p n s e (Responds r) pf) =
     Inr (Some \<lparr>name = n, prompt = take 100 p @ ''...'',
                output_preview = take 100 (output_text r) @ ''...'',
                tokens = py_int (case eval_count r of
                       None \<Rightarrow> real (length (py_split (output_text r))) * 1.3
                     | Some k \<Rightarrow> k),
                time_s = py_round (e - s) 2,
                avg_power_w = py_round (fst (parse_power pf)) 2,
                max_power_w = py_round (snd (parse_power pf)) 2,
                sec_per_token_key =
                  (if (case eval_count r of
                       None \<Rightarrow> real (length (py_split (output_text r))) * 1.3
                     | Some k \<Rightarrow> k) > 0
                   then py_round ((e - s) / (case eval_count r of
                       None \<Rightarrow> real (length (py_split (output_text r))) * 1.3
                     | Some k \<Rightarrow> k)) 4
                   else 0)\<rparr>)"
  by (simp add: run_with_power_monitoring_def Let_def py_truediv_def split: prod.splits)

lemma parse_power_no_readings:
  "pf = None \<or> (\<exists>d. pf = Some d \<and> findall power_pattern d = []) \<Longrightarrow> parse_power pf = (0, 0)"
  by (auto simp: parse_power_def)

lemma run_task_no_error: "run_task mon s e req \<noteq> TaskError (Some x)"
proof (cases req)
  case RequestFails
  then show ?thesis by (simp add: run_task_def)
next
  case (Responds r)
  show ?thesis
  proof (cases "map snd (filter (\<lambda>(t, w). s \<le> t \<and> t \<le> e) (data_queue mon)) = []")
    case True
    with Responds show ?thesis by (simp add: run_task_eq Let_def)
  next
    case False
    then have "run_task mon s e (Responds r) \<noteq> TaskError (Some x)"
      unfolding run_task_eq Let_def by (simp add: calculate_metrics_eq)
    with Responds show ?thesis by simp
  qed
qed

lemma findall_sudo: "findall power_pattern (''sudo: a password is required'' @ [newline]) = []"
  by (simp add: eval_defs findall.simps)

text \<open>
  C2, as claimed: a window without samples is reported as a distinct no-data outcome and
  no power or energy value is made up for it. In \<open>run_with_power_monitoring\<close> a power
  file without any reading still yields a result, with the average and the maximum
  power set to 0; \<open>main\<close> then derives from it the net power 0.1 W and, for 2 s, the
  energy 0.2 J.
\<close>

theorem no_data_counterexample:
  "snd (run_with_power_monitoring ''Hello'' ''warmup'' 100 102
          (Responds \<lparr>output_text = ''Hi there'', eval_count = Some 4\<rparr>)
          (Some (''sudo: a password is required'' @ [newline])))
   = Inr (Some \<lparr>name = ''warmup'', prompt = ''Hello...'', output_preview = ''Hi there...'',
                tokens = 4, time_s = 2, avg_power_w = 0, max_power_w = 0,
                sec_per_token_key = 0.5\<rparr>)
   \<and> add_energy 4
        \<lparr>name = ''warmup'', prompt = ''Hello...'', output_preview = ''Hi there...'',
         tokens = 4, time_s = 2, avg_power_w = 0, max_power_w = 0, sec_per_token_key = 0.5\<rparr>
     = Inr \<lparr>name = ''warmup'', prompt = ''Hello...'', output_preview = ''Hi there...'',
            tokens = 4, time_s = 2, avg_power_w = 0, max_power_w = 0, sec_per_token_key = 0.5,
            net_power_w = 0.1, joules = 0.2, joules_per_token_key = 0.05\<rparr>"
proof -
  have "parse_power (Some (''sudo: a password is required'' @ [newline])) = (0, 0)"
    using findall_sudo by (intro parse_power_no_readings) blast
  then show ?thesis
    unfolding run_with_power_monitoring_eq
    by (simp add: add_energy_def py_truediv_def result.defs py_round_def round_half_even_def
        py_int_def Let_def)
qed

text \<open>
  C2, amended. In \<open>run_experiment\<close>, when no drained sample lies in the window the task
  ends in the message "No power samples captured" and no row is appended to the
  results, and metrics are only ever computed from a non-empty set of samples inside
  the window. In \<open>run_with_power_monitoring\<close>, when the power file holds no reading or
  cannot be read, the result is returned all the same, with \<open>avg_power_w\<close> and
  \<open>max_power_w\<close> equal to 0.
\<close>

theorem no_samples_outcomes:
  "(filter (\<lambda>(t, w). s \<le> t \<and> t \<le> e) (data_queue mon) = [] \<longrightarrow>
      run_task mon s e (Responds r) = NoPowerSamples)
   \<and> (run_task mon s e req = Measured m \<longrightarrow>
        filter (\<lambda>(t, w). s \<le> t \<and> t \<le> e) (data_queue mon) \<noteq> [])
   \<and> (filter (\<lambda>(t, w). started_at tr \<le> t \<and> t \<le> ended_at tr) (arrivals tr) = [] \<longrightarrow>
        run_tasks (tr # trs) mon results = run_tasks trs mon results)
   \<and> (pf = None \<or> (\<exists>d. pf = Some d \<and> findall power_pattern d = []) \<longrightarrow>
        (\<exists>res. snd (run_with_power_monitoring p n s e (Responds r) pf) = Inr (Some res)
           \<and> avg_power_w res = 0 \<and> max_power_w res = 0))"
proof (intro conjI impI)
  assume "filter (\<lambda>(t, w). s \<le> t \<and> t \<le> e) (data_queue mon) = []"
  then show "run_task mon s e (Responds r) = NoPowerSamples"
    by (simp add: run_task_eq Let_def)
next
  assume a: "run_task mon s e req = Measured m"
  show "filter (\<lambda>(t, w). s \<le> t \<and> t \<le> e) (data_queue mon) \<noteq> []"
  proof (cases req)
    case RequestFails
    with a show ?thesis by (simp add: run_task_def)
  next
    case (Responds r')
    with a show ?thesis by (auto simp: run_task_eq Let_def)
  qed
next
  assume a: "filter (\<lambda>(t, w). started_at tr \<le> t \<and> t \<le> ended_at tr) (arrivals tr) = []"
  show "run_tasks (tr # trs) mon results = run_tasks trs mon results"
  proof (cases "answer tr")
    case RequestFails
    then show ?thesis by (simp add: run_task_def)
  next
    case (Responds r')
    with a show ?thesis by (simp add: run_task_eq Let_def)
  qed
next
  assume "pf = None \<or> (\<exists>d. pf = Some d \<and> findall power_pattern d = [])"
  then have "parse_power pf = (0, 0)" by (rule parse_power_no_readings)
  then show "\<exists>res. snd (run_with_power_monitoring p n s e (Responds r) pf) = Inr (Some res)
           \<and> avg_power_w res = 0 \<and> max_power_w res = 0"
    by (simp add: run_with_power_monitoring_eq py_round_zero)
qed

theorem no_samples_outcomes_witness:
  "run_task \<lparr>baseline_watts = 3, data_queue = [(99.5, 5), (102.4, 6)], buffer = [],
             process = Spawned\<rparr> 100 102
     (Responds \<lparr>output_text = ''Hi there'', eval_count = Some 4\<rparr>) = NoPowerSamples
   \<and> run_tasks [\<lparr>task_name = ''Control_Free'', arrivals = [(99.5, 5), (102.4, 6)],
                  started_at = 100, ended_at = 102,
                  answer = Responds \<lparr>output_text = ''Hi there'', eval_count = Some 4\<rparr>\<rparr>]
        \<lparr>baseline_watts = 3, data_queue = [(99.5, 5), (102.4, 6)], buffer = [],
             process = Spawned\<rparr> [] = []
   \<and> (\<exists>res. snd (run_with_power_monitoring ''Hello'' ''warmup'' 100 102
                   (Responds \<lparr>output_text = ''Hi there'', eval_count = Some 4\<rparr>)
                   (Some (''sudo: a password is required'' @ [newline]))) = Inr (Some res)
           \<and> avg_power_w res = 0 \<and> max_power_w res = 0)"
  using findall_sudo no_samples_outcomes
    [where s = 100 and e = 102
       and mon = "\<lparr>baseline_watts = 3, data_queue = [(99.5, 5), (102.4, 6)], buffer = [],
             process = Spawned\<rparr>"
       and r = "\<lparr>output_text = ''Hi there'', eval_count = Some 4\<rparr>"
       and tr = "\<lparr>task_name = ''Control_Free'', arrivals = [(99.5, 5), (102.4, 6)],
                  started_at = 100, ended_at = 102,
                  answer = Responds \<lparr>output_text = ''Hi there'', eval_count = Some 4\<rparr>\<rparr>"
       and trs = "[]" and results = "[]"
       and pf = "Some (''sudo: a password is required'' @ [newline])"
       and p = "''Hello''" and n = "''warmup''"]
  by simp

text \<open>
  C4, as claimed: the net power equals the maximum of 0.1 and the raw average less the
  baseline. In \<open>main\<close> of the simple variant that maximum is rounded to two decimals:
  with the average 5 W and the baseline 3.004 W the net power is 2, not 1.996.
\<close>

theorem net_power_counterexample:
  "map_sum id net_power_w
     (add_energy 3.004
        \<lparr>name = ''Control_Free'', prompt = ''p...'', output_preview = ''o...'', tokens = 10,
         time_s = 2, avg_power_w = 5, max_power_w = 6, sec_per_token_key = 0.2\<rparr>) = Inr 2
   \<and> max 0.1 (5 - 3.004) \<noteq> (2 :: real)"
  by (simp add: add_energy_eq result.defs py_round_def round_half_even_def Let_def)

text \<open>
  C4, amended. In \<open>run_experiment\<close> the net power equals the maximum of 0.1 and the raw
  average less the baseline; in \<open>main\<close> of the simple variant it is that maximum,
  taken on the rounded average, rounded to two decimals. In both the net power is at
  least 0.1, whatever the average and the baseline.
\<close>

theorem net_power_floor:
  "(run_task mon s e req = Measured m \<longrightarrow>
      avg_power_net m = max 0.1 (avg_power_raw m - baseline_watts mon)
      \<and> 0.1 \<le> avg_power_net m)
   \<and> (\<exists>fr. add_energy b r = Inr fr
         \<and> net_power_w fr = py_round (max 0.1 (avg_power_w r - b)) 2
         \<and> 0.1 \<le> net_power_w fr)"
proof (intro conjI impI)
  assume a: "run_task mon s e req = Measured m"
  from run_task_Measured[OF a]
  show n: "avg_power_net m = max 0.1 (avg_power_raw m - baseline_watts mon)" by simp
  show "0.1 \<le> avg_power_net m" unfolding n by simp
next
  have "1 / 10 \<le> py_round (max 0.1 (avg_power_w r - b)) 2"
    by (rule py_round_floor) simp
  then show "\<exists>fr. add_energy b r = Inr fr
         \<and> net_power_w fr = py_round (max 0.1 (avg_power_w r - b)) 2
         \<and> 0.1 \<le> net_power_w fr"
    by (simp add: add_energy_eq result.defs)
qed

theorem net_power_floor_witness:
  "run_task \<lparr>baseline_watts = 6, data_queue = [(100.1, 5), (101, 6), (103, 9)],
             buffer = [], process = Spawned\<rparr>
     100 102 (Responds \<lparr>output_text = ''Hi there'', eval_count = Some 4\<rparr>)
   = Measured \<lparr>token_count = 4, elapsed = 2, avg_power_raw = 5.5, avg_power_net = 0.1,
               total_energy_joules = 0.2, joules_per_token = 0.05, sec_per_token = 0.5\<rparr>
   \<and> (0.1 :: real) = max 0.1 (5.5 - 6)
   \<and> (\<exists>fr. add_energy 6
               \<lparr>name = ''Control_Free'', prompt = ''p...'', output_preview = ''o...'',
                tokens = 10, time_s = 2, avg_power_w = 5, max_power_w = 6,
                sec_per_token_key = 0.2\<rparr> = Inr fr
          \<and> net_power_w fr = 0.1)"
proof -
  have r: "py_round (max 0.1 (5 - 6)) 2 = 0.1"
    by (simp add: py_round_def round_half_even_def Let_def)
  show ?thesis
    using r net_power_floor
      [where mon = "\<lparr>baseline_watts = 6, data_queue = [(100.1, 5), (101, 6), (103, 9)],
             buffer = [], process = Spawned\<rparr>" and s = 100 and e = 102
         and req = "Responds \<lparr>output_text = ''Hi there'', eval_count = Some 4\<rparr>"
         and m = "\<lparr>token_count = 4, elapsed = 2, avg_power_raw = 5.5, avg_power_net = 0.1,
               total_energy_joules = 0.2, joules_per_token = 0.05, sec_per_token = 0.5\<rparr>"
         and b = 6
         and r = "\<lparr>name = ''Control_Free'', prompt = ''p...'', output_preview = ''o...'',
                tokens = 10, time_s = 2, avg_power_w = 5, max_power_w = 6,
                sec_per_token_key = 0.2\<rparr>"]
    by (auto simp: run_task_eq calculate_metrics_eq Let_def)
qed

text \<open>
  C10. The per-token metrics never divide by zero. In \<open>run_experiment\<close> the energy and
  the time per token are the quotients by the token count when it is positive and 0
  otherwise, and no task ends in a \<open>ZeroDivisionError\<close>; in the simple variant
  \<open>sec_per_token\<close> and \<open>joules_per_token\<close> are the rounded quotients when the token
  count is positive and 0 otherwise, and both functions return normally.
\<close>

theorem per_token_no_zero_division:
  "per_token x tc = Inr (if tc > 0 then x / tc else 0)
   \<and> run_task mon s e req \<noteq> TaskError (Some ZeroDivisionError)
   \<and> (run_task mon s e req = Measured m \<longrightarrow>
        joules_per_token m
          = (if token_count m > 0 then total_energy_joules m / token_count m else 0)
        \<and> sec_per_token m = (if token_count m > 0 then elapsed m / token_count m else 0))
   \<and> (\<exists>res. snd (run_with_power_monitoring p n s e (Responds r) pf) = Inr (Some res)
         \<and> sec_per_token_key res
             = (let tcs = (case eval_count r of
                             None \<Rightarrow> real (length (py_split (output_text r))) * 1.3
                           | Some k \<Rightarrow> k)
                in if tcs > 0 then py_round ((e - s) / tcs) 4 else 0))
   \<and> snd (run_with_power_monitoring p n s e RequestFails pf) = Inr None
   \<and> (\<exists>fr. add_energy b res = Inr fr
         \<and> joules_per_token_key fr
             = (if tokens res > 0 then py_round (joules fr / real_of_int (tokens res)) 4 else 0))"
proof (intro conjI impI)
  show "per_token x tc = Inr (if tc > 0 then x / tc else 0)" by (rule per_token_eq)
  show "run_task mon s e req \<noteq> TaskError (Some ZeroDivisionError)" by (rule run_task_no_error)
  show "\<exists>res. snd (run_with_power_monitoring p n s e (Responds r) pf) = Inr (Some res)
         \<and> sec_per_token_key res
             = (let tcs = (case eval_count r of
                             None \<Rightarrow> real (length (py_split (output_text r))) * 1.3
                           | Some k \<Rightarrow> k)
                in if tcs > 0 then py_round ((e - s) / tcs) 4 else 0)"
    by (simp add: run_with_power_monitoring_eq Let_def)
  show "snd (run_with_power_monitoring p n s e RequestFails pf) = Inr None"
    by (simp add: run_with_power_monitoring_def)
  show "\<exists>fr. add_energy b res = Inr fr
         \<and> joules_per_token_key fr
             = (if tokens res > 0 then py_round (joules fr / real_of_int (tokens res)) 4 else 0)"
    by (simp add: add_energy_eq result.defs)
next
  assume a: "run_task mon s e req = Measured m"
  from run_task_Measured[OF a]
  show "joules_per_token m
          = (if token_count m > 0 then total_energy_joules m / token_count m else 0)"
    and "sec_per_token m = (if token_count m > 0 then elapsed m / token_count m else 0)"
    by simp_all
qed

theorem per_token_no_zero_division_witness:
  "run_task \<lparr>baseline_watts = 3, data_queue = [(100.1, 5), (101, 6), (103, 9)],
             buffer = [], process = Spawned\<rparr>
     100 102 (Responds \<lparr>output_text = [], eval_count = Some 0\<rparr>)
   = Measured \<lparr>token_count = 0, elapsed = 2, avg_power_raw = 5.5, avg_power_net = 2.5,
               total_energy_joules = 5, joules_per_token = 0, sec_per_token = 0\<rparr>
   \<and> per_token 5 0 = Inr 0 \<and> per_token 5 4 = Inr 1.25"
  using per_token_no_zero_division
    [where mon = "\<lparr>baseline_watts = 3, data_queue = [(100.1, 5), (101, 6), (103, 9)],
             buffer = [], process = Spawned\<rparr>" and s = 100 and e = 102
       and req = "Responds \<lparr>output_text = [], eval_count = Some 0\<rparr>"
       and m = "\<lparr>token_count = 0, elapsed = 2, avg_power_raw = 5.5, avg_power_net = 2.5,
               total_energy_joules = 5, joules_per_token = 0, sec_per_token = 0\<rparr>"
       and x = 5 and tc = 0]
    per_token_no_zero_division [where x = 5 and tc = 4]
  by (simp add: run_task_eq calculate_metrics_eq py_split_def Let_def)

end
